theory Spec2Isabelle
  imports Main "HOL-Library.Sublist"
begin

section \<open>Schema types\<close>

text \<open>
  A field's declared output type: a reference to a named type, possibly wrapped in
  list and non-null layers (\<open>GraphQLList\<close>, \<open>GraphQLNonNull\<close> with their \<open>ofType\<close>).
  graphql-js links the wrapper to the named type object itself; here the link is the
  type's name, followed through the schema's type map (\<open>getType\<close>), which in graphql-js
  holds every type a field can reach.
\<close>

datatype outputType =
    Named string
  | GraphQLList outputType
  | GraphQLNonNull outputType

datatype typeKind =
    GraphQLScalarType
  | GraphQLObjectType
  | GraphQLInterfaceType
  | GraphQLUnionType
  | GraphQLEnumType
  | GraphQLInputObjectType

text \<open>A named type object: its name, its class, and what \<open>getFields()\<close> gives.\<close>

record namedType =
  name :: string
  kind :: typeKind
  getFields :: "string \<rightharpoonup> outputType"

record schema =
  queryType :: "namedType option"
  types :: "namedType list"

definition getQueryType :: "schema \<Rightarrow> namedType option" where
  "getQueryType sch = queryType sch"

definition getType :: "schema \<Rightarrow> string \<Rightarrow> namedType option" where
  "getType sch n = find (\<lambda>t. name t = n) (types sch)"

text \<open>\<open>ofType\<close> of a wrapper; a named type has none.\<close>

fun ofType :: "outputType \<Rightarrow> outputType option" where
  "ofType (GraphQLList t) = Some t"
| "ofType (GraphQLNonNull t) = Some t"
| "ofType (Named n) = None"

section \<open>Type helpers\<close>

definition isTypeWithFields :: "namedType option \<Rightarrow> bool" where
  "isTypeWithFields ty =
     (case ty of
        None \<Rightarrow> False
      | Some t \<Rightarrow> kind t = GraphQLObjectType \<or> kind t = GraphQLInterfaceType)"

definition isInterfaceType :: "namedType option \<Rightarrow> bool" where
  "isInterfaceType ty =
     (case ty of None \<Rightarrow> False | Some t \<Rightarrow> kind t = GraphQLInterfaceType)"

fun isListType :: "outputType \<Rightarrow> bool" where
  "isListType (GraphQLNonNull t) = isListType t"
| "isListType (GraphQLList t) = True"
| "isListType (Named n) = False"

fun getNamedType :: "outputType \<Rightarrow> string" where
  "getNamedType (GraphQLNonNull t) = getNamedType t"
| "getNamedType (GraphQLList t) = getNamedType t"
| "getNamedType (Named n) = n"

section \<open>Query documents\<close>

datatype selectionNode =
    Field string "selectionNode list option"
  | FragmentSpread string
  | InlineFragment "string option" "selectionNode list"

record fragmentDefinitionNode =
  fragmentName :: string
  typeCondition :: string
  selectionSet :: "selectionNode list"

datatype definitionNode =
    OperationDefinition "selectionNode list"
  | FragmentDefinition fragmentDefinitionNode
  | OtherDefinition

record operationContext =
  additionalTypenames :: "string list option"

record 'c operation =
  query :: "definitionNode list"
  opContext :: "'c operationContext_scheme"

section \<open>The set of type names\<close>

text \<open>
  A JavaScript \<open>Set\<close> of strings, as the list of its elements in insertion order:
  \<open>add\<close> appends a value that is not yet present and leaves the set alone otherwise,
  \<open>new Set(xs)\<close> adds the elements of \<open>xs\<close> in order (none for \<open>undefined\<close>), and
  \<open>Array.from\<close> reads the list off.
\<close>

definition setAdd :: "string \<Rightarrow> string list \<Rightarrow> string list" where
  "setAdd x s = (if x \<in> set s then s else s @ [x])"

definition newSet :: "string list option \<Rightarrow> string list" where
  "newSet xs = foldl (\<lambda>s x. setAdd x s) [] (case xs of None \<Rightarrow> [] | Some l \<Rightarrow> l)"

section \<open>The detector\<close>

text \<open>
  \<open>resolveFragment\<close>: the definitions of kind \<open>FRAGMENT_DEFINITION\<close>, in document
  order; a \<open>Map\<close> built from their (name, definition) pairs, a later pair replacing an
  earlier one with the same key; and the lookup of the name.
\<close>

definition fragmentDefinitions :: "definitionNode list \<Rightarrow> fragmentDefinitionNode list" where
  "fragmentDefinitions defs =
     List.map_filter (\<lambda>d. case d of FragmentDefinition f \<Rightarrow> Some f | _ \<Rightarrow> None) defs"

definition newMap :: "('k \<times> 'v) list \<Rightarrow> ('k \<rightharpoonup> 'v)" where
  "newMap kvs = foldl (\<lambda>m (k, v). m(k \<mapsto> v)) Map.empty kvs"

definition resolveFragment ::
  "definitionNode list \<Rightarrow> string \<Rightarrow> fragmentDefinitionNode option" where
  "resolveFragment defs fragName =
     (let fragments = fragmentDefinitions defs;
          fragmentMap = newMap (map (\<lambda>f. (fragmentName f, f)) fragments)
      in fragmentMap fragName)"

definition addListFieldToAdditionalTypenames ::
  "outputType \<Rightarrow> string list \<Rightarrow> string list" where
  "addListFieldToAdditionalTypenames fieldTy acc =
     (if \<not> isListType fieldTy then acc
      else case ofType fieldTy of
             None \<Rightarrow> acc
           | Some inner \<Rightarrow> setAdd (getNamedType inner) acc)"

text \<open>
  The traversal. The first argument after the schema and the document bounds the depth
  of the calls of \<open>exploreSelections\<close>: a fragment that spreads itself makes the source
  recurse until the stack overflows, which is the result \<open>None\<close> here.
\<close>

function (sequential) exploreSelections ::
    "schema \<Rightarrow> definitionNode list \<Rightarrow> nat \<Rightarrow> selectionNode \<Rightarrow> namedType option
      \<Rightarrow> bool \<Rightarrow> string list \<Rightarrow> string list option"
  and exploreField ::
    "schema \<Rightarrow> definitionNode list \<Rightarrow> nat \<Rightarrow> string \<Rightarrow> selectionNode list option
      \<Rightarrow> namedType option \<Rightarrow> string list \<Rightarrow> string list option"
  and exploreFragmentSpread ::
    "schema \<Rightarrow> definitionNode list \<Rightarrow> nat \<Rightarrow> string
      \<Rightarrow> bool \<Rightarrow> string list \<Rightarrow> string list option"
  and exploreInlineFragment ::
    "schema \<Rightarrow> definitionNode list \<Rightarrow> nat \<Rightarrow> string option \<Rightarrow> selectionNode list
      \<Rightarrow> bool \<Rightarrow> string list \<Rightarrow> string list option"
  and exploreEach ::
    "schema \<Rightarrow> definitionNode list \<Rightarrow> nat \<Rightarrow> selectionNode list \<Rightarrow> namedType option
      \<Rightarrow> bool \<Rightarrow> string list \<Rightarrow> string list option"
where
  "exploreSelections sch defs 0 sel parentType isList acc = None"
| "exploreSelections sch defs (Suc n) sel parentType isList acc =
     (case sel of
        Field fieldName sels \<Rightarrow> exploreField sch defs n fieldName sels parentType acc
      | FragmentSpread fragName \<Rightarrow> exploreFragmentSpread sch defs n fragName isList acc
      | InlineFragment cond sels \<Rightarrow> exploreInlineFragment sch defs n cond sels isList acc)"
| "exploreField sch defs n fieldName sels parentType acc =
     (if \<not> isTypeWithFields parentType then Some acc
      else case parentType of
        None \<Rightarrow> Some acc
      | Some pt \<Rightarrow>
         (case getFields pt fieldName of
            None \<Rightarrow> Some acc
          | Some fieldTy \<Rightarrow>
             (let fieldType = getType sch (getNamedType fieldTy);
                  acc' = (if \<not> isInterfaceType fieldType
                          then addListFieldToAdditionalTypenames fieldTy acc
                          else acc);
                  fieldIsList = isListType fieldTy
              in exploreEach sch defs n (case sels of None \<Rightarrow> [] | Some ss \<Rightarrow> ss)
                   fieldType fieldIsList acc')))"
| "exploreFragmentSpread sch defs n fragName isList acc =
     (case resolveFragment defs fragName of
        None \<Rightarrow> Some acc
      | Some foundFragment \<Rightarrow>
         (let fragmentOnType = getType sch (typeCondition foundFragment)
          in if \<not> isTypeWithFields fragmentOnType then Some acc
             else exploreEach sch defs n (selectionSet foundFragment)
                    fragmentOnType isList acc))"
| "exploreInlineFragment sch defs n cond sels isList acc =
     (case cond of
        None \<Rightarrow> Some acc
      | Some condName \<Rightarrow>
         (let fieldType = getType sch condName
          in if \<not> isTypeWithFields fieldType then Some acc
             else case fieldType of
                    None \<Rightarrow> Some acc
                  | Some ft \<Rightarrow>
                     exploreEach sch defs n sels fieldType False
                       (if isList then setAdd (name ft) acc else acc)))"
| "exploreEach sch defs n [] parentType isList acc = Some acc"
| "exploreEach sch defs n (s # ss) parentType isList acc =
     (case exploreSelections sch defs n s parentType isList acc of
        None \<Rightarrow> None
      | Some acc' \<Rightarrow> exploreEach sch defs n ss parentType isList acc')"

  by pat_completeness auto

text \<open>
  Termination: the depth bound drops at every dispatch; with the same bound, a method
  body is above the loop over its selections, and the loop is above the dispatch of one
  selection and above the loop over the rest.
\<close>

termination
  by (relation "measures
       [\<lambda>x. case x of
              Inl (Inl (sch, defs, n, r)) \<Rightarrow> n
            | Inl (Inr (sch, defs, n, r)) \<Rightarrow> n
            | Inr (Inl (sch, defs, n, r)) \<Rightarrow> n
            | Inr (Inr (Inl (sch, defs, n, r))) \<Rightarrow> n
            | Inr (Inr (Inr (sch, defs, n, r))) \<Rightarrow> n,
        \<lambda>x. case x of
              Inl (Inl a) \<Rightarrow> 0
            | Inr (Inr (Inr a)) \<Rightarrow> 1
            | _ \<Rightarrow> 2,
        \<lambda>x. case x of
              Inr (Inr (Inr (sch, defs, n, sels, r))) \<Rightarrow> length sels
            | _ \<Rightarrow> 0]") simp_all

text \<open>
  The detector object: the schema, the operation, and the set of type names, which the
  constructor seeds from the operation's context.
\<close>

record 'c detector =
  detSchema :: schema
  detOperation :: "'c operation"
  detTypenames :: "string list"

definition newDetector :: "schema \<Rightarrow> 'c operation \<Rightarrow> 'c detector" where
  "newDetector sch opn =
     \<lparr>detSchema = sch, detOperation = opn,
      detTypenames = newSet (additionalTypenames (opContext opn))\<rparr>"

text \<open>The loop of \<open>getAdditionalTypenames\<close> over the document's definitions.\<close>

fun exploreDefinitions ::
  "schema \<Rightarrow> definitionNode list \<Rightarrow> nat \<Rightarrow> definitionNode list \<Rightarrow> namedType
    \<Rightarrow> string list \<Rightarrow> string list option" where
  "exploreDefinitions sch defs n [] qt acc = Some acc"
| "exploreDefinitions sch defs n (d # ds) qt acc =
     (case d of
        OperationDefinition sels \<Rightarrow>
          (case exploreEach sch defs n sels (Some qt) False acc of
             None \<Rightarrow> None
           | Some acc' \<Rightarrow> exploreDefinitions sch defs n ds qt acc')
      | _ \<Rightarrow> exploreDefinitions sch defs n ds qt acc)"

definition getAdditionalTypenames :: "'c detector \<Rightarrow> nat \<Rightarrow> string list option" where
  "getAdditionalTypenames det n =
     (case getQueryType (detSchema det) of
        None \<Rightarrow> Some []
      | Some qt \<Rightarrow>
          exploreDefinitions (detSchema det) (query (detOperation det)) n
            (query (detOperation det)) qt (detTypenames det))"

section \<open>The exchange\<close>

text \<open>
  \<open>getContext\<close> of the exchange, on the schema that \<open>buildClientSchema\<close> has built.
  It returns the new context together with the records written to the console
  (the operation and the type names), and \<open>None\<close> when the detector does not return.
  The option \<open>debug\<close> may be absent.
\<close>

definition getContext ::
  "schema \<Rightarrow> bool option \<Rightarrow> nat \<Rightarrow> 'c operation
    \<Rightarrow> ('c operationContext_scheme \<times> ('c operation \<times> string list) list) option" where
  "getContext sch debug n opn =
     (case getAdditionalTypenames (newDetector sch opn) n of
        None \<Rightarrow> None
      | Some names \<Rightarrow>
          Some ((opContext opn)\<lparr>additionalTypenames := Some names\<rparr>,
                if debug = Some True then [(opn, names)] else []))"

section \<open>The schema of the test suite\<close>

definition listOf :: "string \<Rightarrow> outputType" where
  "listOf n = GraphQLNonNull (GraphQLList (GraphQLNonNull (Named n)))"

definition nodeType :: namedType where
  "nodeType = \<lparr>name = ''Node'', kind = GraphQLInterfaceType,
     getFields = [''id'' \<mapsto> GraphQLNonNull (Named ''ID'')]\<rparr>"

definition postType :: namedType where
  "postType = \<lparr>name = ''Post'', kind = GraphQLObjectType,
     getFields = [''id'' \<mapsto> GraphQLNonNull (Named ''ID''),
                  ''title'' \<mapsto> GraphQLNonNull (Named ''String''),
                  ''body'' \<mapsto> GraphQLNonNull (Named ''String''),
                  ''comments'' \<mapsto> listOf ''Comment'']\<rparr>"

definition userType :: namedType where
  "userType = \<lparr>name = ''User'', kind = GraphQLObjectType,
     getFields = [''id'' \<mapsto> GraphQLNonNull (Named ''ID''),
                  ''name'' \<mapsto> GraphQLNonNull (Named ''String''),
                  ''posts'' \<mapsto> listOf ''Post'']\<rparr>"

definition commentType :: namedType where
  "commentType = \<lparr>name = ''Comment'', kind = GraphQLInterfaceType,
     getFields = [''body'' \<mapsto> GraphQLNonNull (Named ''String''),
                  ''likedBy'' \<mapsto> listOf ''User'']\<rparr>"

definition postCommentType :: namedType where
  "postCommentType = \<lparr>name = ''PostComment'', kind = GraphQLObjectType,
     getFields = [''id'' \<mapsto> GraphQLNonNull (Named ''ID''),
                  ''title'' \<mapsto> GraphQLNonNull (Named ''String''),
                  ''body'' \<mapsto> GraphQLNonNull (Named ''String''),
                  ''likedBy'' \<mapsto> listOf ''User'']\<rparr>"

definition userEdgeType :: namedType where
  "userEdgeType = \<lparr>name = ''UserEdge'', kind = GraphQLObjectType,
     getFields = [''cursor'' \<mapsto> GraphQLNonNull (Named ''String''),
                  ''node'' \<mapsto> Named ''User'']\<rparr>"

definition pageInfoType :: namedType where
  "pageInfoType = \<lparr>name = ''PageInfo'', kind = GraphQLObjectType,
     getFields = [''endCursor'' \<mapsto> Named ''String'',
                  ''hasNextPage'' \<mapsto> GraphQLNonNull (Named ''Boolean''),
                  ''hasPreviousPage'' \<mapsto> GraphQLNonNull (Named ''Boolean''),
                  ''startCursor'' \<mapsto> Named ''String'']\<rparr>"

definition userConnectionType :: namedType where
  "userConnectionType = \<lparr>name = ''UserConnection'', kind = GraphQLObjectType,
     getFields = [''edges'' \<mapsto> listOf ''UserEdge'',
                  ''nodes'' \<mapsto> listOf ''User'',
                  ''pageInfo'' \<mapsto> GraphQLNonNull (Named ''PageInfo''),
                  ''totalCount'' \<mapsto> GraphQLNonNull (Named ''Int'')]\<rparr>"

definition rootType :: namedType where
  "rootType = \<lparr>name = ''Query'', kind = GraphQLObjectType,
     getFields = [''nodes'' \<mapsto> listOf ''Node'',
                  ''node'' \<mapsto> Named ''Node'',
                  ''users'' \<mapsto> listOf ''User'',
                  ''nullableUsers'' \<mapsto> GraphQLList (Named ''User''),
                  ''userConnection'' \<mapsto> GraphQLNonNull (Named ''UserConnection'')]\<rparr>"

definition scalarType :: "string \<Rightarrow> namedType" where
  "scalarType n = \<lparr>name = n, kind = GraphQLScalarType, getFields = Map.empty\<rparr>"

definition testSchema :: schema where
  "testSchema =
     \<lparr>queryType = Some rootType,
      types = [rootType, nodeType, userType, postType, commentType, postCommentType,
               userEdgeType, userConnectionType, pageInfoType,
               scalarType ''ID'', scalarType ''String'', scalarType ''Int'',
               scalarType ''Boolean'']\<rparr>"

text \<open>A schema without a root query type.\<close>

definition noQuerySchema :: schema where
  "noQuerySchema = \<lparr>queryType = None, types = [userType, postType]\<rparr>"

section \<open>Operations of the test suite\<close>

text \<open>An operation context with two more fields than the hint list.\<close>

record urqlContext = operationContext +
  url :: string
  requestPolicy :: string

definition emptyContext :: urqlContext where
  "emptyContext = \<lparr>additionalTypenames = None,
     url = ''http://localhost:8000/graphql'', requestPolicy = ''cache-first''\<rparr>"

text \<open>\<^verbatim>\<open>query { nodes { ... on User { name } ... on Post { body } } }\<close>\<close>

definition inlineFragmentsOperation :: "(unit urqlContext_ext) operation" where
  "inlineFragmentsOperation =
     \<lparr>query = [OperationDefinition [Field ''nodes'' (Some
        [InlineFragment (Some ''User'') [Field ''name'' None],
         InlineFragment (Some ''Post'') [Field ''body'' None]])]],
      opContext = emptyContext\<rparr>"

text \<open>
  \<^verbatim>\<open>fragment UserFragment on User { name }  query { nodes { ...UserFragment } }\<close>
\<close>

definition userFragment :: fragmentDefinitionNode where
  "userFragment = \<lparr>fragmentName = ''UserFragment'', typeCondition = ''User'',
     selectionSet = [Field ''name'' None]\<rparr>"

definition fragmentSpreadOperation :: "(unit urqlContext_ext) operation" where
  "fragmentSpreadOperation =
     \<lparr>query = [FragmentDefinition userFragment,
               OperationDefinition [Field ''nodes'' (Some [FragmentSpread ''UserFragment''])]],
      opContext = emptyContext\<rparr>"

text \<open>\<^verbatim>\<open>query { nodes { ... on User { name } } }\<close>\<close>

definition inlineUserOperation :: "(unit urqlContext_ext) operation" where
  "inlineUserOperation =
     \<lparr>query = [OperationDefinition [Field ''nodes'' (Some
        [InlineFragment (Some ''User'') [Field ''name'' None]])]],
      opContext = emptyContext\<rparr>"

text \<open>
  \<^verbatim>\<open>query { users { id name } }\<close> with the hints \<open>User\<close> and \<open>Post\<close> supplied by the
  caller.
\<close>

definition seededOperation :: "(unit urqlContext_ext) operation" where
  "seededOperation =
     \<lparr>query = [OperationDefinition [Field ''users'' (Some
        [Field ''id'' None, Field ''name'' None])]],
      opContext = emptyContext\<lparr>additionalTypenames := Some [''User'', ''Post'']\<rparr>\<rparr>"

text \<open>The other queries of the test suite, each without hints from the caller.\<close>

definition queryOf :: "definitionNode list \<Rightarrow> (unit urqlContext_ext) operation" where
  "queryOf defs = \<lparr>query = defs, opContext = emptyContext\<rparr>"

text \<open>\<^verbatim>\<open>query { users { id name } }\<close>\<close>

definition usersQuery :: "definitionNode list" where
  "usersQuery = [OperationDefinition
     [Field ''users'' (Some [Field ''id'' None, Field ''name'' None])]]"

text \<open>\<^verbatim>\<open>query { users { id posts { id title } } }\<close>\<close>

definition nestedListQuery :: "definitionNode list" where
  "nestedListQuery = [OperationDefinition
     [Field ''users'' (Some [Field ''id'' None,
        Field ''posts'' (Some [Field ''id'' None, Field ''title'' None])])]]"

text \<open>\<^verbatim>\<open>query { nullableUsers { id name } }\<close>\<close>

definition nullableListQuery :: "definitionNode list" where
  "nullableListQuery = [OperationDefinition
     [Field ''nullableUsers'' (Some [Field ''id'' None, Field ''name'' None])]]"

text \<open>
  \<^verbatim>\<open>fragment UserFragment on User { id name posts { title } }\<close>
  \<^verbatim>\<open>query { nullableUsers { ...UserFragment } }\<close>
\<close>

definition fragmentListQuery :: "definitionNode list" where
  "fragmentListQuery =
     [FragmentDefinition \<lparr>fragmentName = ''UserFragment'', typeCondition = ''User'',
        selectionSet = [Field ''id'' None, Field ''name'' None,
                        Field ''posts'' (Some [Field ''title'' None])]\<rparr>,
      OperationDefinition
        [Field ''nullableUsers'' (Some [FragmentSpread ''UserFragment''])]]"

text \<open>\<^verbatim>\<open>query { nullableUsers { name posts { title } } users { name } }\<close>\<close>

definition duplicatesQuery :: "definitionNode list" where
  "duplicatesQuery = [OperationDefinition
     [Field ''nullableUsers'' (Some [Field ''name'' None,
        Field ''posts'' (Some [Field ''title'' None])]),
      Field ''users'' (Some [Field ''name'' None])]]"

text \<open>
  \<^verbatim>\<open>query { userConnection(first: 10) { edges { node { name } } nodes { name } } }\<close>
\<close>

definition connectionQuery :: "definitionNode list" where
  "connectionQuery = [OperationDefinition
     [Field ''userConnection'' (Some
        [Field ''edges'' (Some [Field ''node'' (Some [Field ''name'' None])]),
         Field ''nodes'' (Some [Field ''name'' None])])]]"

text \<open>
  \<^verbatim>\<open>fragment UserFragment on User { posts { body } }\<close>
  \<^verbatim>\<open>query { node(id: "1") { ... on User { ...UserFragment } } }\<close>
\<close>

definition spreadInInterfaceQuery :: "definitionNode list" where
  "spreadInInterfaceQuery =
     [FragmentDefinition \<lparr>fragmentName = ''UserFragment'', typeCondition = ''User'',
        selectionSet = [Field ''posts'' (Some [Field ''body'' None])]\<rparr>,
      OperationDefinition
        [Field ''node'' (Some
           [InlineFragment (Some ''User'') [FragmentSpread ''UserFragment'']])]]"

text \<open>
  \<^verbatim>\<open>fragment PostFragment on Post { comments { likedBy { name } } }\<close>
  \<^verbatim>\<open>query { node(id: "1") { ... on Post { ...PostFragment } } }\<close>
\<close>

definition interfaceListInFragmentQuery :: "definitionNode list" where
  "interfaceListInFragmentQuery =
     [FragmentDefinition \<lparr>fragmentName = ''PostFragment'', typeCondition = ''Post'',
        selectionSet = [Field ''comments'' (Some
           [Field ''likedBy'' (Some [Field ''name'' None])])]\<rparr>,
      OperationDefinition
        [Field ''node'' (Some
           [InlineFragment (Some ''Post'') [FragmentSpread ''PostFragment'']])]]"

text \<open>
  \<^verbatim>\<open>fragment CommentFragment on Comment { likedBy { name } }\<close>
  \<^verbatim>\<open>query { node(id: "1") { ... on Comment { ...CommentFragment } } }\<close>
\<close>

definition interfaceFragmentQuery :: "definitionNode list" where
  "interfaceFragmentQuery =
     [FragmentDefinition \<lparr>fragmentName = ''CommentFragment'', typeCondition = ''Comment'',
        selectionSet = [Field ''likedBy'' (Some [Field ''name'' None])]\<rparr>,
      OperationDefinition
        [Field ''node'' (Some
           [InlineFragment (Some ''Comment'') [FragmentSpread ''CommentFragment'']])]]"

text \<open>
  \<^verbatim>\<open>fragment NodeFragment on Node { ... on User { name } ... on Post { body } }\<close>
  \<^verbatim>\<open>query { nodes { ...NodeFragment } }\<close>
\<close>

definition twoInlineFragments :: fragmentDefinitionNode where
  "twoInlineFragments = \<lparr>fragmentName = ''NodeFragment'', typeCondition = ''Node'',
     selectionSet = [InlineFragment (Some ''User'') [Field ''name'' None],
                     InlineFragment (Some ''Post'') [Field ''body'' None]]\<rparr>"

definition spreadOfInlineFragmentsQuery :: "definitionNode list" where
  "spreadOfInlineFragmentsQuery =
     [FragmentDefinition twoInlineFragments,
      OperationDefinition [Field ''nodes'' (Some [FragmentSpread ''NodeFragment''])]]"

text \<open>
  A document with two fragments of one name:
  \<^verbatim>\<open>fragment Dup on User { name }  query { node { ...Dup } }\<close>
  \<^verbatim>\<open>fragment Dup on Post { comments { body } }  fragment UserFragment on User { name }\<close>
\<close>

definition firstDuplicate :: fragmentDefinitionNode where
  "firstDuplicate = \<lparr>fragmentName = ''Dup'', typeCondition = ''User'',
     selectionSet = [Field ''name'' None]\<rparr>"

definition secondDuplicate :: fragmentDefinitionNode where
  "secondDuplicate = \<lparr>fragmentName = ''Dup'', typeCondition = ''Post'',
     selectionSet = [Field ''comments'' (Some [Field ''body'' None])]\<rparr>"

definition duplicateFragmentsQuery :: "definitionNode list" where
  "duplicateFragmentsQuery =
     [FragmentDefinition firstDuplicate,
      OperationDefinition [Field ''node'' (Some [FragmentSpread ''Dup''])],
      FragmentDefinition secondDuplicate,
      FragmentDefinition userFragment]"

text \<open>
  \<^verbatim>\<open>fragment Loop on User { ...Loop }  query { users { ...Loop } }\<close>, a fragment
  that spreads itself.
\<close>

definition selfSpreadQuery :: "definitionNode list" where
  "selfSpreadQuery =
     [FragmentDefinition \<lparr>fragmentName = ''Loop'', typeCondition = ''User'',
        selectionSet = [FragmentSpread ''Loop'']\<rparr>,
      OperationDefinition [Field ''users'' (Some [FragmentSpread ''Loop''])]]"

section \<open>Notions of the specification\<close>

text \<open>Stripping the non-null wrappers, and the test for a list wrapper.\<close>

fun unwrapNonNull :: "outputType \<Rightarrow> outputType" where
  "unwrapNonNull (GraphQLNonNull t) = unwrapNonNull t"
| "unwrapNonNull t = t"

fun isListWrapper :: "outputType \<Rightarrow> bool" where
  "isListWrapper (GraphQLList t) = True"
| "isListWrapper t = False"

text \<open>
  A malformed reference: a field selected on a parent type that is missing or has no
  selectable fields, or that does not declare the field; a fragment spread whose name
  resolves to no fragment, or to a fragment on a type that is missing or has no
  selectable fields; an inline fragment whose type condition names such a type.
\<close>

fun malformedReference ::
  "schema \<Rightarrow> definitionNode list \<Rightarrow> selectionNode \<Rightarrow> namedType option \<Rightarrow> bool" where
  "malformedReference sch defs (Field fieldName sels) parentType =
     (case parentType of
        None \<Rightarrow> True
      | Some pt \<Rightarrow> \<not> isTypeWithFields (Some pt) \<or> getFields pt fieldName = None)"
| "malformedReference sch defs (FragmentSpread fragName) parentType =
     (case resolveFragment defs fragName of
        None \<Rightarrow> True
      | Some fr \<Rightarrow> \<not> isTypeWithFields (getType sch (typeCondition fr)))"
| "malformedReference sch defs (InlineFragment cond sels) parentType =
     (case cond of
        None \<Rightarrow> False
      | Some c \<Rightarrow> \<not> isTypeWithFields (getType sch c))"

text \<open>
  The set of type names only grows, at its end, and stays free of duplicates.
\<close>

definition grows :: "string list \<Rightarrow> string list \<Rightarrow> bool" where
  "grows acc r = (prefix acc r \<and> (distinct acc \<longrightarrow> distinct r))"


text \<open>\<^verbatim>\<open>fragment NodeFragment on Node { ... on User { name } }\<close>\<close>

definition nodeFragment :: fragmentDefinitionNode where
  "nodeFragment = \<lparr>fragmentName = ''NodeFragment'', typeCondition = ''Node'',
     selectionSet = [InlineFragment (Some ''User'') [Field ''name'' None]]\<rparr>"

text \<open>\<^verbatim>\<open>fragment Lost on Missing { id }\<close>, on a type the schema does not have.\<close>

definition lostFragment :: fragmentDefinitionNode where
  "lostFragment = \<lparr>fragmentName = ''Lost'', typeCondition = ''Missing'',
     selectionSet = [Field ''id'' None]\<rparr>"


section \<open>Properties of the set of type names\<close>

lemma set_setAdd: "set (setAdd x s) = insert x (set s)"
  by (auto simp: setAdd_def)

lemma distinct_setAdd: "distinct s \<Longrightarrow> distinct (setAdd x s)"
  by (simp add: setAdd_def)

lemma prefix_setAdd: "prefix s (setAdd x s)"
  by (simp add: setAdd_def)

lemma foldl_setAdd_distinct: "distinct a \<Longrightarrow> distinct (foldl (\<lambda>s x. setAdd x s) a l)"
  by (induction l arbitrary: a) (simp_all add: distinct_setAdd)

lemma foldl_setAdd_set: "set (foldl (\<lambda>s x. setAdd x s) a l) = set a \<union> set l"
  by (induction l arbitrary: a) (auto simp: set_setAdd)

lemma foldl_setAdd_id: "distinct (a @ l) \<Longrightarrow> foldl (\<lambda>s x. setAdd x s) a l = a @ l"
  by (induction l arbitrary: a) (auto simp: setAdd_def)

lemma distinct_newSet: "distinct (newSet xs)"
  by (simp add: newSet_def foldl_setAdd_distinct)

lemma set_newSet: "set (newSet (Some l)) = set l"
  by (simp add: newSet_def foldl_setAdd_set)

lemma newSet_distinct_id: "distinct l \<Longrightarrow> newSet (Some l) = l"
  using foldl_setAdd_id [of "[]" l] by (simp add: newSet_def)

lemma grows_refl: "grows a a"
  by (simp add: grows_def)

lemma grows_trans: "grows a b \<Longrightarrow> grows b c \<Longrightarrow> grows a c"
  by (auto simp: grows_def)

lemma grows_setAdd: "grows a (setAdd x a)"
  by (simp add: grows_def prefix_setAdd distinct_setAdd)

section \<open>Schema lookups\<close>

lemma getType_name: "getType sch n = Some t \<Longrightarrow> name t = n"
  by (auto simp: getType_def find_Some_iff)

lemma getNamedType_ofType:
  "ofType t = Some u \<Longrightarrow> getNamedType u = getNamedType t"
  by (cases t) simp_all

lemma isListType_ofType: "isListType t \<Longrightarrow> \<exists>u. ofType t = Some u"
  by (cases t) simp_all

text \<open>What a list field adds is the name of the field's own named type.\<close>

lemma addListField_list:
  "isListType t \<Longrightarrow> addListFieldToAdditionalTypenames t acc = setAdd (getNamedType t) acc"
  using isListType_ofType [of t]
  by (auto simp: addListFieldToAdditionalTypenames_def getNamedType_ofType)

lemma addListField_not_list:
  "\<not> isListType t \<Longrightarrow> addListFieldToAdditionalTypenames t acc = acc"
  by (simp add: addListFieldToAdditionalTypenames_def)

lemma grows_addListField: "grows a (addListFieldToAdditionalTypenames t a)"
  by (cases "isListType t") (simp_all add: addListField_list addListField_not_list
      grows_setAdd grows_refl)

section \<open>Fragment lookup\<close>

lemma newMap_snoc: "newMap (kvs @ [(k, v)]) = (newMap kvs)(k \<mapsto> v)"
  by (simp add: newMap_def)

lemma newMap_last:
  "newMap (map (\<lambda>f. (key f, f)) fs) k =
     (if filter (\<lambda>f. key f = k) fs = [] then None
      else Some (last (filter (\<lambda>f. key f = k) fs)))"
proof (induction fs rule: rev_induct)
  case Nil
  show ?case by (simp add: newMap_def)
next
  case (snoc x xs)
  then show ?case by (simp add: newMap_snoc)
qed


lemma set_fragmentDefinitions:
  "set (fragmentDefinitions defs) = {f. FragmentDefinition f \<in> set defs}"
proof (induction defs)
  case Nil
  show ?case by (simp add: fragmentDefinitions_def map_filter_simps)
next
  case (Cons d defs)
  then show ?case
    by (cases d) (auto simp: fragmentDefinitions_def map_filter_simps)
qed

lemma fragmentDefinitions_append:
  "fragmentDefinitions (pre @ FragmentDefinition f # post) =
     fragmentDefinitions pre @ f # fragmentDefinitions post"
  by (simp add: fragmentDefinitions_def map_filter_def)

lemma resolveFragment_filter:
  "resolveFragment defs fragName =
     (let sameName = filter (\<lambda>f. fragmentName f = fragName) (fragmentDefinitions defs)
      in if sameName = [] then None else Some (last sameName))"
  by (simp add: resolveFragment_def newMap_last Let_def)

section \<open>The traversal only adds names\<close>

lemma explore_grows:
  "exploreSelections sch defs n sel pt b acc = Some r \<Longrightarrow> grows acc r"
  "exploreField sch defs n f fsels pt acc = Some r \<Longrightarrow> grows acc r"
  "exploreFragmentSpread sch defs n fr b acc = Some r \<Longrightarrow> grows acc r"
  "exploreInlineFragment sch defs n c isels b acc = Some r \<Longrightarrow> grows acc r"
  "exploreEach sch defs n sels pt b acc = Some r \<Longrightarrow> grows acc r"
proof (induction sch defs n sel pt b acc and sch defs n f fsels pt acc
         and sch defs n fr b acc and sch defs n c isels b acc
         and sch defs n sels pt b acc
       arbitrary: r and r and r and r and r
       rule: exploreSelections_exploreField_exploreFragmentSpread_exploreInlineFragment_exploreEach.induct)
  case (1 sch defs sel parentType isList acc)
  then show ?case by simp
next
  case (2 sch defs n sel parentType isList acc)
  then show ?case by (cases sel) simp_all
next
  case (3 sch defs n fieldName sels parentType acc)
  show ?case
  proof (cases "isTypeWithFields parentType")
    case False
    with 3(2) show ?thesis by (simp add: grows_refl)
  next
    case True
    then obtain pt where pt: "parentType = Some pt"
      by (cases parentType) (simp_all add: isTypeWithFields_def)
    show ?thesis
    proof (cases "getFields pt fieldName")
      case None
      with 3(2) True pt show ?thesis by (simp add: grows_refl)
    next
      case (Some fieldTy)
      let ?ft = "getType sch (getNamedType fieldTy)"
      let ?acc = "if \<not> isInterfaceType ?ft
                  then addListFieldToAdditionalTypenames fieldTy acc else acc"
      from 3(2) True pt Some have
        "exploreEach sch defs n (case sels of None \<Rightarrow> [] | Some ss \<Rightarrow> ss) ?ft
           (isListType fieldTy) ?acc = Some r"
        by (simp add: Let_def)
      then have "grows ?acc r"
        using 3(1) [OF _ pt Some refl refl refl] True by simp
      moreover have "grows acc ?acc"
        by (simp add: grows_refl grows_addListField)
      ultimately show ?thesis by (rule grows_trans [rotated])
    qed
  qed
next
  case (4 sch defs n fragName isList acc)
  then show ?case
    by (auto simp: Let_def grows_refl split: option.splits if_splits)
next
  case (5 sch defs n cond sels isList acc)
  show ?case
  proof (cases cond)
    case None
    with 5(2) show ?thesis by (simp add: grows_refl)
  next
    case (Some c)
    show ?thesis
    proof (cases "getType sch c")
      case None
      with 5(2) Some show ?thesis by (simp add: grows_refl isTypeWithFields_def)
    next
      case ty: (Some ft)
      show ?thesis
      proof (cases "isTypeWithFields (Some ft)")
        case False
        with 5(2) Some ty show ?thesis by (simp add: grows_refl)
      next
        case True
        let ?acc = "if isList then setAdd (name ft) acc else acc"
        from 5(2) Some ty True have
          "exploreEach sch defs n sels (Some ft) False ?acc = Some r" by simp
        then have "grows ?acc r"
          using 5(1) [OF Some refl _ ty] True ty by simp
        moreover have "grows acc ?acc" by (simp add: grows_refl grows_setAdd)
        ultimately show ?thesis by (rule grows_trans [rotated])
      qed
    qed
  qed
next
  case (6 sch defs n parentType isList acc)
  then show ?case by (simp add: grows_refl)
next
  case (7 sch defs n s ss parentType isList acc)
  then show ?case
    by (auto split: option.splits intro: grows_trans)
qed

lemma exploreDefinitions_grows:
  "exploreDefinitions sch defs n ds qt acc = Some r \<Longrightarrow> grows acc r"
proof (induction ds arbitrary: acc)
  case Nil
  then show ?case by (simp add: grows_refl)
next
  case (Cons d ds)
  show ?case
  proof (cases d)
    case (OperationDefinition sels)
    with Cons.prems obtain a where
      a: "exploreEach sch defs n sels (Some qt) False acc = Some a" and
      rest: "exploreDefinitions sch defs n ds qt a = Some r"
      by (auto split: option.splits)
    from explore_grows(5) [OF a] Cons.IH [OF rest] show ?thesis
      by (rule grows_trans)
  next
    case (FragmentDefinition f)
    with Cons show ?thesis by simp
  next
    case OtherDefinition
    with Cons show ?thesis by simp
  qed
qed

text \<open>
  On a schema with a root query type, what the detector returns has no duplicates and
  starts with the caller's hints, in their order, each kept at its first occurrence.
\<close>

lemma detect_with_query_type:
  assumes "getQueryType sch = Some qt"
    and "getAdditionalTypenames (newDetector sch opn) n = Some r"
  shows "distinct r"
    and "prefix (newSet (additionalTypenames (opContext opn))) r"
    and "additionalTypenames (opContext opn) = Some l \<Longrightarrow> set l \<subseteq> set r"
    and "additionalTypenames (opContext opn) = Some l \<Longrightarrow> distinct l \<Longrightarrow> prefix l r"
proof -
  let ?seed = "newSet (additionalTypenames (opContext opn))"
  from assms have "exploreDefinitions sch (query opn) n (query opn) qt ?seed = Some r"
    by (simp add: getAdditionalTypenames_def newDetector_def)
  then have g: "grows ?seed r" by (rule exploreDefinitions_grows)
  then show "distinct r" by (simp add: grows_def distinct_newSet)
  from g show p: "prefix ?seed r" by (simp add: grows_def)
  show "set l \<subseteq> set r" if "additionalTypenames (opContext opn) = Some l"
    using p that set_newSet [of l] by (auto dest: set_mono_prefix)
  show "prefix l r" if "additionalTypenames (opContext opn) = Some l" "distinct l"
    using p that by (simp add: newSet_distinct_id)
qed

section \<open>The loop over a selection set\<close>

text \<open>
  The loop dispatches every selection of the set, in order, with the one parent type
  and the one flag it was given, and stops at the first that does not return.
\<close>

lemma foldl_bind_None:
  "foldl (\<lambda>r s. Option.bind r (f s)) None sels = None"
  by (induction sels) simp_all

lemma exploreEach_foldl:
  "exploreEach sch defs n sels pt b acc =
     foldl (\<lambda>r s. Option.bind r (exploreSelections sch defs n s pt b)) (Some acc) sels"
proof (induction sels arbitrary: acc)
  case Nil
  show ?case by simp
next
  case (Cons s sels)
  show ?case
  proof (cases "exploreSelections sch defs n s pt b acc")
    case None
    then show ?thesis by (simp add: foldl_bind_None)
  next
    case (Some a)
    then show ?thesis using Cons [of a] by simp
  qed
qed

section \<open>A deeper bound gives the same result\<close>

lemma explore_mono:
  "exploreSelections sch defs n sel pt b acc = Some r \<Longrightarrow> n \<le> m
     \<Longrightarrow> exploreSelections sch defs m sel pt b acc = Some r"
  "exploreField sch defs n f fsels pt acc = Some r \<Longrightarrow> n \<le> m
     \<Longrightarrow> exploreField sch defs m f fsels pt acc = Some r"
  "exploreFragmentSpread sch defs n fr b acc = Some r \<Longrightarrow> n \<le> m
     \<Longrightarrow> exploreFragmentSpread sch defs m fr b acc = Some r"
  "exploreInlineFragment sch defs n c isels b acc = Some r \<Longrightarrow> n \<le> m
     \<Longrightarrow> exploreInlineFragment sch defs m c isels b acc = Some r"
  "exploreEach sch defs n sels pt b acc = Some r \<Longrightarrow> n \<le> m
     \<Longrightarrow> exploreEach sch defs m sels pt b acc = Some r"
proof (induction sch defs n sel pt b acc and sch defs n f fsels pt acc
         and sch defs n fr b acc and sch defs n c isels b acc
         and sch defs n sels pt b acc
       arbitrary: r m and r m and r m and r m and r m
       rule: exploreSelections_exploreField_exploreFragmentSpread_exploreInlineFragment_exploreEach.induct)
  case (1 sch defs sel parentType isList acc)
  then show ?case by simp
next
  case (2 sch defs n sel parentType isList acc)
  from 2(5) obtain m' where m: "m = Suc m'" and le: "n \<le> m'"
    by (cases m) simp_all
  show ?case
  proof (cases sel)
    case (Field x11 x12)
    with 2(1) [OF Field _ le] 2(4) m show ?thesis by simp
  next
    case (FragmentSpread x2)
    with 2(2) [OF FragmentSpread _ le] 2(4) m show ?thesis by simp
  next
    case (InlineFragment x31 x32)
    with 2(3) [OF InlineFragment _ le] 2(4) m show ?thesis by simp
  qed
next
  case (3 sch defs n fieldName sels parentType acc)
  show ?case
  proof (cases "isTypeWithFields parentType")
    case False
    with 3(2) show ?thesis by simp
  next
    case True
    then obtain pt where pt: "parentType = Some pt"
      by (cases parentType) (simp_all add: isTypeWithFields_def)
    show ?thesis
    proof (cases "getFields pt fieldName")
      case None
      with 3(2) True pt show ?thesis by simp
    next
      case (Some fieldTy)
      with 3(2) 3(1) [OF _ pt Some refl refl refl _ 3(3)] True pt show ?thesis
        by (simp add: Let_def)
    qed
  qed
next
  case (4 sch defs n fragName isList acc)
  show ?case
  proof (cases "resolveFragment defs fragName")
    case None
    with 4(2) show ?thesis by simp
  next
    case (Some fr)
    with 4(2) 4(1) [OF Some refl _ _ 4(3)] show ?thesis
      by (simp add: Let_def split: if_splits)
  qed
next
  case (5 sch defs n cond sels isList acc)
  show ?case
  proof (cases cond)
    case None
    with 5(2) show ?thesis by simp
  next
    case (Some c)
    show ?thesis
    proof (cases "getType sch c")
      case None
      with 5(2) Some show ?thesis by (simp add: isTypeWithFields_def)
    next
      case ty: (Some ft)
      with 5(2) 5(1) [OF Some refl _ ty _ 5(3)] Some show ?thesis
        by (simp add: Let_def split: if_splits)
    qed
  qed
next
  case (6 sch defs n parentType isList acc)
  then show ?case by simp
next
  case (7 sch defs n s ss parentType isList acc)
  from 7(3) obtain a where a: "exploreSelections sch defs n s parentType isList acc = Some a"
    and rest: "exploreEach sch defs n ss parentType isList a = Some r"
    by (auto split: option.splits)
  from 7(1) [OF a 7(4)] 7(2) [OF a rest 7(4)] show ?case by simp
qed

lemma exploreDefinitions_mono:
  "exploreDefinitions sch defs n ds qt acc = Some r \<Longrightarrow> n \<le> m
     \<Longrightarrow> exploreDefinitions sch defs m ds qt acc = Some r"
proof (induction ds arbitrary: acc)
  case Nil
  then show ?case by simp
next
  case (Cons d ds)
  show ?case
  proof (cases d)
    case (OperationDefinition sels)
    with Cons.prems obtain a where
      a: "exploreEach sch defs n sels (Some qt) False acc = Some a" and
      rest: "exploreDefinitions sch defs n ds qt a = Some r"
      by (auto split: option.splits)
    from explore_mono(5) [OF a Cons.prems(2)] Cons.IH [OF rest Cons.prems(2)]
      OperationDefinition show ?thesis by simp
  next
    case (FragmentDefinition f)
    with Cons show ?thesis by simp
  next
    case OtherDefinition
    with Cons show ?thesis by simp
  qed
qed

lemma detect_mono:
  "getAdditionalTypenames det n = Some r \<Longrightarrow> n \<le> m
     \<Longrightarrow> getAdditionalTypenames det m = Some r"
  by (auto simp: getAdditionalTypenames_def split: option.splits
      intro: exploreDefinitions_mono)

section \<open>The field rule on an interface-typed field\<close>

text \<open>
  A field whose named type is an interface adds nothing itself: the traversal goes
  straight to its selections, with the field's list-ness as the flag.
\<close>

lemma exploreField_interface:
  assumes "isTypeWithFields (Some pt)" and "getFields pt fieldName = Some fieldTy"
    and "isInterfaceType (getType sch (getNamedType fieldTy))"
  shows "exploreField sch defs n fieldName sels (Some pt) acc =
           exploreEach sch defs n (case sels of None \<Rightarrow> [] | Some ss \<Rightarrow> ss)
             (getType sch (getNamedType fieldTy)) (isListType fieldTy) acc"
  using assms by (simp add: Let_def)

text \<open>
  Scenario C: \<^verbatim>\<open>{ nodes { ...on User { name } ...on Post { body } } }\<close> gives
  \<open>User\<close> and \<open>Post\<close>, and not \<open>Node\<close>.
\<close>

lemma scenario_C:
  "getAdditionalTypenames (newDetector testSchema inlineFragmentsOperation) (4 + n) =
     Some [''User'', ''Post'']"
proof -
  have "getAdditionalTypenames (newDetector testSchema inlineFragmentsOperation) 4 =
          Some [''User'', ''Post'']"
    by code_simp
  then show ?thesis by (rule detect_mono) simp
qed

text \<open>
  An inline fragment straight under a list field of interface type, on a type with
  selectable fields, has its type name in what the field returns.
\<close>

lemma grows_set: "grows a r \<Longrightarrow> set a \<subseteq> set r"
  by (auto simp: grows_def dest: set_mono_prefix)

lemma exploreEach_records_inline_fragment:
  assumes "exploreEach sch defs n sels pt True acc = Some r"
    and "InlineFragment (Some c) ss \<in> set sels"
    and "isTypeWithFields (getType sch c)"
  shows "c \<in> set r"
  using assms
proof (induction sels arbitrary: acc)
  case Nil
  then show ?case by simp
next
  case (Cons s rest)
  from Cons.prems(1) obtain a where
    a: "exploreSelections sch defs n s pt True acc = Some a" and
    r: "exploreEach sch defs n rest pt True a = Some r"
    by (auto split: option.splits)
  show ?case
  proof (cases "s = InlineFragment (Some c) ss")
    case True
    from a obtain m where m: "n = Suc m" by (cases n) simp_all
    from Cons.prems(3) obtain ty where ty: "getType sch c = Some ty"
      by (cases "getType sch c") (simp_all add: isTypeWithFields_def)
    have nm: "name ty = c" using ty by (rule getType_name)
    from a True m ty nm Cons.prems(3) have
      "exploreEach sch defs m ss (Some ty) False (setAdd c acc) = Some a"
      by simp
    then have "set (setAdd c acc) \<subseteq> set a"
      by (intro grows_set explore_grows(5))
    then have "c \<in> set a" by (auto simp: set_setAdd)
    moreover have "set a \<subseteq> set r"
      using r by (intro grows_set explore_grows(5))
    ultimately show ?thesis by auto
  next
    case False
    with Cons.prems(2) have "InlineFragment (Some c) ss \<in> set rest" by simp
    from Cons.IH [OF r this Cons.prems(3)] show ?thesis .
  qed
qed

lemma inline_fragment_under_interface_list:
  assumes "isTypeWithFields (Some pt)" and "getFields pt fieldName = Some fieldTy"
    and "isInterfaceType (getType sch (getNamedType fieldTy))" and "isListType fieldTy"
    and "InlineFragment (Some c) ss \<in> set sels"
    and "isTypeWithFields (getType sch c)"
    and "exploreField sch defs n fieldName (Some sels) (Some pt) acc = Some r"
  shows "c \<in> set r"
proof -
  from assms(7) exploreField_interface [OF assms(1-3), of defs n "Some sels" acc] assms(4)
  have "exploreEach sch defs n sels (getType sch (getNamedType fieldTy)) True acc = Some r"
    by simp
  then show ?thesis using assms(5,6) by (rule exploreEach_records_inline_fragment)
qed

section \<open>A fragment that spreads itself\<close>

text \<open>
  On a fragment that spreads itself the traversal returns at no depth bound: the
  source recurses without end.
\<close>

lemma self_spread_resolves:
  "resolveFragment selfSpreadQuery ''Loop'' =
     Some \<lparr>fragmentName = ''Loop'', typeCondition = ''User'',
        selectionSet = [FragmentSpread ''Loop'']\<rparr>"
  by code_simp

lemma self_spread_user: "isTypeWithFields (getType testSchema ''User'')"
  by code_simp

lemma self_spread_never_returns:
  "exploreFragmentSpread testSchema selfSpreadQuery n ''Loop'' b acc = None"
proof (induction n)
  case 0
  show ?case by (simp add: self_spread_resolves self_spread_user)
next
  case (Suc n)
  then show ?case by (simp add: self_spread_resolves self_spread_user)
qed

lemma self_spread_selection:
  "exploreSelections testSchema selfSpreadQuery n (FragmentSpread ''Loop'') pt b acc = None"
  by (cases n) (simp_all add: self_spread_never_returns del: exploreFragmentSpread.simps)

lemma self_spread_each:
  "exploreEach testSchema selfSpreadQuery n [FragmentSpread ''Loop''] pt b acc = None"
  by (simp add: self_spread_selection)

lemma self_spread_detection_never_returns:
  "getAdditionalTypenames (newDetector testSchema (queryOf selfSpreadQuery)) n = None"
proof -
  have q: "getQueryType testSchema = Some rootType"
    by (simp add: getQueryType_def testSchema_def)
  have f: "getFields rootType ''users'' = Some (listOf ''User'')"
    by (simp add: rootType_def)
  have r: "isTypeWithFields (Some rootType)"
    by (simp add: isTypeWithFields_def rootType_def)
  have fld: "exploreField testSchema selfSpreadQuery m ''users''
      (Some [FragmentSpread ''Loop'']) (Some rootType) acc = None" for m acc
    by (simp add: f r Let_def self_spread_each del: exploreEach.simps)
  have sel: "exploreSelections testSchema selfSpreadQuery n
      (Field ''users'' (Some [FragmentSpread ''Loop''])) (Some rootType) False acc = None"
    for acc
    by (cases n) (simp_all add: fld del: exploreField.simps)
  have "exploreEach testSchema selfSpreadQuery n
          [Field ''users'' (Some [FragmentSpread ''Loop''])] (Some rootType) False acc = None"
    for acc
    by (simp add: sel)
  then show ?thesis
    by (simp add: getAdditionalTypenames_def newDetector_def q queryOf_def
        del: exploreEach.simps)
      (simp add: selfSpreadQuery_def)
qed


section \<open>The exchange\<close>

text \<open>
  \<open>getContext\<close> returns when the detector does, and changes the hint list only. On a
  schema with a root query type the new list has no duplicates and starts with the
  caller's hints.
\<close>

lemma getContext_returns_iff:
  "(getContext sch debug n opn = None) = (getAdditionalTypenames (newDetector sch opn) n = None)"
  by (simp add: getContext_def split: option.splits)

lemma getContext_frame:
  "getContext sch debug n opn = Some (ctx, logged) \<Longrightarrow>
     (\<exists>names. getAdditionalTypenames (newDetector sch opn) n = Some names
        \<and> ctx = (opContext opn)\<lparr>additionalTypenames := Some names\<rparr>)
     \<and> operationContext.more ctx = operationContext.more (opContext opn)"
  by (auto simp: getContext_def split: option.splits)

lemma getContext_with_query_type:
  assumes "getQueryType sch = Some qt"
    and "getContext sch debug n opn = Some (ctx, logged)"
  shows "\<exists>names. additionalTypenames ctx = Some names \<and> distinct names
           \<and> prefix (newSet (additionalTypenames (opContext opn))) names"
    and "operationContext.more ctx = operationContext.more (opContext opn)"
proof -
  from getContext_frame [OF assms(2)] obtain names where
    n: "getAdditionalTypenames (newDetector sch opn) n = Some names" and
    c: "ctx = (opContext opn)\<lparr>additionalTypenames := Some names\<rparr>"
    by blast
  from detect_with_query_type(1,2) [OF assms(1) n] c
  show "\<exists>names. additionalTypenames ctx = Some names \<and> distinct names
           \<and> prefix (newSet (additionalTypenames (opContext opn))) names"
    by simp
  from c show "operationContext.more ctx = operationContext.more (opContext opn)"
    by simp
qed


section \<open>The expectations of the test suite\<close>

text \<open>
  The model gives, on the schema and the queries of the repository's tests, the lists
  that the tests expect.
\<close>

lemma test_list: "getAdditionalTypenames (newDetector testSchema (queryOf usersQuery)) 8
    = Some [''User'']"
  by code_simp

lemma test_nested_list:
  "getAdditionalTypenames (newDetector testSchema (queryOf nestedListQuery)) 8
    = Some [''User'', ''Post'']"
  by code_simp

lemma test_nullable_list:
  "getAdditionalTypenames (newDetector testSchema (queryOf nullableListQuery)) 8
    = Some [''User'']"
  by code_simp

lemma test_fragment_list:
  "getAdditionalTypenames (newDetector testSchema (queryOf fragmentListQuery)) 8
    = Some [''User'', ''Post'']"
  by code_simp

lemma test_duplicates:
  "getAdditionalTypenames (newDetector testSchema (queryOf duplicatesQuery)) 8
    = Some [''User'', ''Post'']"
  by code_simp

lemma test_connection:
  "getAdditionalTypenames (newDetector testSchema (queryOf connectionQuery)) 8
    = Some [''UserEdge'', ''User'']"
  by code_simp

lemma test_spread_in_interface:
  "getAdditionalTypenames (newDetector testSchema (queryOf spreadInInterfaceQuery)) 8
    = Some [''Post'']"
  by code_simp

lemma test_interface_list_in_fragment:
  "getAdditionalTypenames (newDetector testSchema (queryOf interfaceListInFragmentQuery)) 8
    = Some [''User'']"
  by code_simp

lemma test_interface_fragment:
  "getAdditionalTypenames (newDetector testSchema (queryOf interfaceFragmentQuery)) 8
    = Some [''User'']"
  by code_simp

lemma test_spread_of_inline_fragments:
  "getAdditionalTypenames (newDetector testSchema (queryOf spreadOfInlineFragmentsQuery)) 8
    = Some [''User'', ''Post'']"
  by code_simp

lemma test_caller_hints:
  "getAdditionalTypenames (newDetector testSchema seededOperation) 8
    = Some [''User'', ''Post'']"
  by code_simp

section \<open>The claims\<close>

text \<open>
  C1. A list field whose element type is an interface is not recorded by the field
  rule (\<open>exploreField_interface\<close>), and an inline fragment under that field on a type
  with selectable fields has its type name in the result
  (\<open>inline_fragment_under_interface_list\<close>, \<open>scenario_C\<close>). The claim says the same
  of a fragment spread under that field. There the code does not do so:
  \<open>exploreFragmentSpread\<close> only passes the flag on. With
  \<^verbatim>\<open>fragment UserFragment on User { name }\<close>, the query
  \<^verbatim>\<open>{ nodes { ...UserFragment } }\<close> gives no name at all, at every depth bound from
  four on, while \<^verbatim>\<open>{ nodes { ... on User { name } } }\<close> gives \<open>User\<close>.
\<close>

theorem fragment_spread_under_interface_list_not_recorded:
  "getAdditionalTypenames (newDetector testSchema fragmentSpreadOperation) (4 + n) = Some []
   \<and> getAdditionalTypenames (newDetector testSchema inlineUserOperation) (4 + n)
       = Some [''User'']"
proof -
  have "getAdditionalTypenames (newDetector testSchema fragmentSpreadOperation) 4 = Some []"
    by code_simp
  then have a: "getAdditionalTypenames (newDetector testSchema fragmentSpreadOperation) (4 + n)
      = Some []"
    by (rule detect_mono) simp
  have "getAdditionalTypenames (newDetector testSchema inlineUserOperation) 4
      = Some [''User'']"
    by code_simp
  then have "getAdditionalTypenames (newDetector testSchema inlineUserOperation) (4 + n)
      = Some [''User'']"
    by (rule detect_mono) simp
  with a show ?thesis by simp
qed

text \<open>
  C2. The claim: every detection call returns a sequence without duplicates that holds
  every hint of the caller, the hints first. On a schema without a root query type the
  code returns the empty sequence, so the hints \<open>User\<close> and \<open>Post\<close> of the caller are
  not in it (with a root query type, \<open>detect_with_query_type\<close> gives the claim).
\<close>

theorem hints_missing_without_query_type:
  "additionalTypenames (opContext seededOperation) = Some [''User'', ''Post'']
   \<and> (\<exists>r. getAdditionalTypenames (newDetector noQuerySchema seededOperation) n = Some r
         \<and> ''User'' \<notin> set r \<and> ''Post'' \<notin> set r)"
  by (simp add: getAdditionalTypenames_def newDetector_def getQueryType_def
      noQuerySchema_def seededOperation_def)

text \<open>
  C3. The claim: on a schema without a root query type the detector returns the seeded
  set unchanged. The code returns the empty sequence there, although the constructor
  has seeded the set with the hints \<open>User\<close> and \<open>Post\<close>.
\<close>

theorem no_query_type_returns_empty:
  "getQueryType noQuerySchema = None
   \<and> detTypenames (newDetector noQuerySchema seededOperation) = [''User'', ''Post'']
   \<and> getAdditionalTypenames (newDetector noQuerySchema seededOperation) n = Some []"
proof -
  have "detTypenames (newDetector noQuerySchema seededOperation) = [''User'', ''Post'']"
    by code_simp
  then show ?thesis
    by (simp add: getAdditionalTypenames_def newDetector_def getQueryType_def
        noQuerySchema_def)
qed


text \<open>
  C4. A malformed reference (a field unknown on the parent type, a parent type without
  selectable fields, a fragment spread that resolves to nothing, a fragment or inline
  fragment on a type that is missing or has no selectable fields) is skipped: the
  selection returns, with the set as it was, and at any depth bound from one on, so
  without a further call of \<open>exploreSelections\<close>.
\<close>

theorem malformed_reference_is_skipped:
  "malformedReference sch defs sel parentType \<Longrightarrow>
     exploreSelections sch defs (Suc n) sel parentType isList acc = Some acc"
  by (cases sel) (auto simp: isTypeWithFields_def split: option.splits)

theorem malformed_reference_is_skipped_witness:
  "malformedReference testSchema [] (Field ''unknown'' None) (Some rootType)
   \<and> exploreSelections testSchema [] (Suc 0) (Field ''unknown'' None) (Some rootType)
        True [''Seen''] = Some [''Seen'']
   \<and> malformedReference testSchema [] (Field ''length'' None) (Some (scalarType ''String''))
   \<and> exploreSelections testSchema [] (Suc 0) (Field ''length'' None)
        (Some (scalarType ''String'')) True [''Seen''] = Some [''Seen'']
   \<and> malformedReference testSchema [] (FragmentSpread ''Nowhere'') (Some rootType)
   \<and> exploreSelections testSchema [] (Suc 0) (FragmentSpread ''Nowhere'') (Some rootType)
        True [''Seen''] = Some [''Seen'']
   \<and> malformedReference testSchema [FragmentDefinition lostFragment] (FragmentSpread ''Lost'')
        (Some rootType)
   \<and> exploreSelections testSchema [FragmentDefinition lostFragment] (Suc 0)
        (FragmentSpread ''Lost'') (Some rootType) True [''Seen''] = Some [''Seen'']
   \<and> malformedReference testSchema [] (InlineFragment (Some ''ID'') [Field ''id'' None])
        (Some nodeType)
   \<and> exploreSelections testSchema [] (Suc 0) (InlineFragment (Some ''ID'') [Field ''id'' None])
        (Some nodeType) True [''Seen''] = Some [''Seen'']"
proof -
  have h1: "malformedReference testSchema [] (Field ''unknown'' None) (Some rootType)"
    by code_simp
  have h2: "malformedReference testSchema [] (Field ''length'' None)
      (Some (scalarType ''String''))"
    by code_simp
  have h3: "malformedReference testSchema [] (FragmentSpread ''Nowhere'') (Some rootType)"
    by code_simp
  have h4: "malformedReference testSchema [FragmentDefinition lostFragment]
      (FragmentSpread ''Lost'') (Some rootType)"
    by code_simp
  have h5: "malformedReference testSchema [] (InlineFragment (Some ''ID'') [Field ''id'' None])
      (Some nodeType)"
    by code_simp
  show ?thesis
    using h1 h2 h3 h4 h5
      malformed_reference_is_skipped [OF h1, of 0 True "[''Seen'']"]
      malformed_reference_is_skipped [OF h2, of 0 True "[''Seen'']"]
      malformed_reference_is_skipped [OF h3, of 0 True "[''Seen'']"]
      malformed_reference_is_skipped [OF h4, of 0 True "[''Seen'']"]
      malformed_reference_is_skipped [OF h5, of 0 True "[''Seen'']"]
    by (intro conjI) assumption+
qed

text \<open>
  C5. A fragment spread, dispatched with a flag, dispatches every selection of the
  fragment with that same flag (and the fragment's type as parent): with the flag true,
  an inline fragment among those selections has its type name in the result. An inline
  fragment dispatches every one of its selections with the flag false, whatever flag it
  was given: the flag decides only whether the type name is recorded first, so that a
  true flag has the effect of a false one on the set with the name added.
\<close>

theorem spread_keeps_flag_inline_fragment_resets_it:
  "(resolveFragment defs fragName = Some fr
      \<and> isTypeWithFields (getType sch (typeCondition fr)) \<longrightarrow>
        exploreSelections sch defs (Suc n) (FragmentSpread fragName) pt isList acc =
          foldl (\<lambda>r s. Option.bind r
                   (exploreSelections sch defs n s (getType sch (typeCondition fr)) isList))
            (Some acc) (selectionSet fr)
        \<and> (\<forall>r c' ss. exploreSelections sch defs (Suc n) (FragmentSpread fragName) pt True acc
                         = Some r
              \<and> InlineFragment (Some c') ss \<in> set (selectionSet fr)
              \<and> isTypeWithFields (getType sch c') \<longrightarrow> c' \<in> set r))
   \<and> (getType sch c = Some ty \<and> isTypeWithFields (Some ty) \<longrightarrow>
        exploreSelections sch defs (Suc n) (InlineFragment (Some c) sels) pt isList acc =
          foldl (\<lambda>r s. Option.bind r (exploreSelections sch defs n s (Some ty) False))
            (Some (if isList then setAdd (name ty) acc else acc)) sels
        \<and> exploreSelections sch defs (Suc n) (InlineFragment (Some c) sels) pt True acc =
            exploreSelections sch defs (Suc n) (InlineFragment (Some c) sels) pt False
              (setAdd (name ty) acc))"
proof (intro conjI impI)
  assume h: "resolveFragment defs fragName = Some fr
      \<and> isTypeWithFields (getType sch (typeCondition fr))"
  let ?ty = "getType sch (typeCondition fr)"
  have body: "exploreSelections sch defs (Suc n) (FragmentSpread fragName) pt b acc =
      exploreEach sch defs n (selectionSet fr) ?ty b acc" for b
    using h by (simp add: Let_def)
  show "exploreSelections sch defs (Suc n) (FragmentSpread fragName) pt isList acc =
          foldl (\<lambda>r s. Option.bind r (exploreSelections sch defs n s ?ty isList))
            (Some acc) (selectionSet fr)"
    by (simp only: body exploreEach_foldl)
  show "\<forall>r c' ss. exploreSelections sch defs (Suc n) (FragmentSpread fragName) pt True acc
                         = Some r
              \<and> InlineFragment (Some c') ss \<in> set (selectionSet fr)
              \<and> isTypeWithFields (getType sch c') \<longrightarrow> c' \<in> set r"
    using exploreEach_records_inline_fragment [of sch defs n "selectionSet fr" ?ty acc]
    by (auto simp only: body)
next
  assume h: "getType sch c = Some ty \<and> isTypeWithFields (Some ty)"
  have body: "exploreSelections sch defs (Suc n) (InlineFragment (Some c) sels) pt b a =
      exploreEach sch defs n sels (Some ty) False (if b then setAdd (name ty) a else a)"
    for b a
    using h by (simp add: Let_def)
  show "exploreSelections sch defs (Suc n) (InlineFragment (Some c) sels) pt isList acc =
          foldl (\<lambda>r s. Option.bind r (exploreSelections sch defs n s (Some ty) False))
            (Some (if isList then setAdd (name ty) acc else acc)) sels"
    by (simp only: body exploreEach_foldl)
  show "exploreSelections sch defs (Suc n) (InlineFragment (Some c) sels) pt True acc =
            exploreSelections sch defs (Suc n) (InlineFragment (Some c) sels) pt False
              (setAdd (name ty) acc)"
    by (simp only: body if_True if_False)
qed

theorem spread_keeps_flag_inline_fragment_resets_it_witness:
  "resolveFragment spreadOfInlineFragmentsQuery ''NodeFragment'' = Some twoInlineFragments
   \<and> isTypeWithFields (getType testSchema (typeCondition twoInlineFragments))
   \<and> InlineFragment (Some ''Post'') [Field ''body'' None]
        \<in> set (selectionSet twoInlineFragments)
   \<and> isTypeWithFields (getType testSchema ''Post'')
   \<and> exploreSelections testSchema spreadOfInlineFragmentsQuery (Suc 2)
        (FragmentSpread ''NodeFragment'') (Some rootType) True [] = Some [''User'', ''Post'']
   \<and> ''Post'' \<in> set [''User'', ''Post'']
   \<and> exploreSelections testSchema spreadOfInlineFragmentsQuery (Suc 2)
        (FragmentSpread ''NodeFragment'') (Some rootType) False [] = Some []
   \<and> getType testSchema ''Node'' = Some nodeType
   \<and> isTypeWithFields (Some nodeType)
   \<and> exploreSelections testSchema spreadOfInlineFragmentsQuery (Suc 2)
        (InlineFragment (Some ''Node'') (selectionSet twoInlineFragments)) (Some rootType)
        True [] = Some [''Node'']
   \<and> exploreSelections testSchema spreadOfInlineFragmentsQuery (Suc 2)
        (InlineFragment (Some ''Node'') (selectionSet twoInlineFragments)) (Some rootType)
        False (setAdd (name nodeType) []) = Some [''Node'']"
proof -
  have h1: "resolveFragment spreadOfInlineFragmentsQuery ''NodeFragment''
      = Some twoInlineFragments"
    by code_simp
  have h2: "isTypeWithFields (getType testSchema (typeCondition twoInlineFragments))"
    by code_simp
  have h3: "InlineFragment (Some ''Post'') [Field ''body'' None]
        \<in> set (selectionSet twoInlineFragments)"
    by (simp add: twoInlineFragments_def)
  have h4: "isTypeWithFields (getType testSchema ''Post'')"
    by code_simp
  have h5: "getType testSchema ''Node'' = Some nodeType"
    by (simp add: getType_def testSchema_def rootType_def nodeType_def)
  have h6: "isTypeWithFields (Some nodeType)"
    by code_simp
  have e1: "exploreSelections testSchema spreadOfInlineFragmentsQuery (Suc 2)
        (FragmentSpread ''NodeFragment'') (Some rootType) True [] = Some [''User'', ''Post'']"
    by code_simp
  have e2: "exploreSelections testSchema spreadOfInlineFragmentsQuery (Suc 2)
        (FragmentSpread ''NodeFragment'') (Some rootType) False [] = Some []"
    by code_simp
  have e3: "exploreSelections testSchema spreadOfInlineFragmentsQuery (Suc 2)
        (InlineFragment (Some ''Node'') (selectionSet twoInlineFragments)) (Some rootType)
        True [] = Some [''Node'']"
    by code_simp
  note inst = spread_keeps_flag_inline_fragment_resets_it
      [where defs = spreadOfInlineFragmentsQuery and fragName = "''NodeFragment''"
         and fr = twoInlineFragments and sch = testSchema and n = 2
         and pt = "Some rootType" and acc = "[]" and c = "''Node''" and ty = nodeType
         and sels = "selectionSet twoInlineFragments"]
  from inst h1 h2 h3 h4 e1 have m: "''Post'' \<in> set [''User'', ''Post'']"
    by blast
  from inst h5 h6 e3 have r: "exploreSelections testSchema spreadOfInlineFragmentsQuery (Suc 2)
        (InlineFragment (Some ''Node'') (selectionSet twoInlineFragments)) (Some rootType)
        False (setAdd (name nodeType) []) = Some [''Node'']"
    by metis
  from h1 h2 h3 h4 h5 h6 e1 e2 e3 m r show ?thesis by blast
qed

text \<open>
  C6. \<open>isListType\<close> is the test for a list wrapper after the non-null wrappers have
  been stripped: true on \<open>[X]\<close>, \<open>[X]!\<close>, \<open>[X!]\<close> and \<open>[X!]!\<close>, false on \<open>X\<close> and
  \<open>X!\<close>.
\<close>

theorem isListType_unwraps_non_null:
  "isListType t = isListWrapper (unwrapNonNull t)
   \<and> isListType (GraphQLList (Named x))
   \<and> isListType (GraphQLNonNull (GraphQLList (Named x)))
   \<and> isListType (GraphQLList (GraphQLNonNull (Named x)))
   \<and> isListType (GraphQLNonNull (GraphQLList (GraphQLNonNull (Named x))))
   \<and> \<not> isListType (Named x)
   \<and> \<not> isListType (GraphQLNonNull (Named x))"
proof -
  have "isListType t = isListWrapper (unwrapNonNull t)"
    by (induction t) simp_all
  then show ?thesis by simp
qed

text \<open>
  C7. The claim: the republished context is the incoming one with the hint list
  replaced by the seeded-plus-discovered sequence, every other field unchanged. The
  other fields are unchanged (\<open>getContext_frame\<close>), and on a schema with a root
  query type the new list starts with the caller's hints
  (\<open>getContext_with_query_type\<close>). On a schema without a root query type the hints
  \<open>User\<close> and \<open>Post\<close> of the caller are replaced by the empty list, which holds
  neither.
\<close>

theorem republished_hints_lost_without_query_type:
  "additionalTypenames (opContext seededOperation) = Some [''User'', ''Post'']
   \<and> getContext noQuerySchema debug n seededOperation =
       Some (emptyContext\<lparr>additionalTypenames := Some []\<rparr>,
             if debug = Some True then [(seededOperation, [])] else [])"
  by (simp add: getContext_def getAdditionalTypenames_def newDetector_def getQueryType_def
      noQuerySchema_def seededOperation_def)

text \<open>
  C8. The type names that the exchange computes with \<open>debug\<close> true are those it
  computes with \<open>debug\<close> false or absent; \<open>debug\<close> decides only whether one record, of
  the operation and the names, is written.
\<close>

theorem debug_has_no_effect_on_result:
  "map_option fst (getContext sch (Some True) n opn)
     = map_option fst (getContext sch debug n opn)
   \<and> map_option snd (getContext sch debug n opn) =
       map_option (\<lambda>names. if debug = Some True then [(opn, names)] else [])
         (getAdditionalTypenames (newDetector sch opn) n)"
  by (simp add: getContext_def split: option.splits)



text \<open>
  C10. A fragment spread resolves to the last fragment definition of its name in the
  document: a definition of the name after which the document holds no other of that
  name is what the name resolves to, whatever stands before it; a name that no
  definition has resolves to nothing; and what a name resolves to is always such a
  last definition.
\<close>

theorem resolveFragment_last_definition:
  "(defs = pre @ FragmentDefinition f # post
      \<and> (\<forall>g. FragmentDefinition g \<in> set post \<longrightarrow> fragmentName g \<noteq> fragmentName f)
      \<longrightarrow> resolveFragment defs (fragmentName f) = Some f)
   \<and> ((\<forall>g. FragmentDefinition g \<in> set defs \<longrightarrow> fragmentName g \<noteq> fragName)
      \<longrightarrow> resolveFragment defs fragName = None)
   \<and> (resolveFragment defs fragName = Some found \<longrightarrow>
        (\<exists>before after. defs = before @ FragmentDefinition found # after
           \<and> fragmentName found = fragName
           \<and> (\<forall>g. FragmentDefinition g \<in> set after \<longrightarrow> fragmentName g \<noteq> fragName)))"
proof -
  have last_wins: "resolveFragment (xs @ FragmentDefinition h # ys) (fragmentName h) = Some h"
    if "\<forall>g. FragmentDefinition g \<in> set ys \<longrightarrow> fragmentName g \<noteq> fragmentName h"
    for xs ys h
  proof -
    from that have
      "filter (\<lambda>g. fragmentName g = fragmentName h) (fragmentDefinitions ys) = []"
      by (auto simp: filter_empty_conv set_fragmentDefinitions)
    then show ?thesis
      by (simp add: resolveFragment_filter fragmentDefinitions_append)
  qed
  have none: "resolveFragment defs fragName = None"
    if "\<forall>g. FragmentDefinition g \<in> set defs \<longrightarrow> fragmentName g \<noteq> fragName"
  proof -
    from that have
      "filter (\<lambda>g. fragmentName g = fragName) (fragmentDefinitions defs) = []"
      by (auto simp: filter_empty_conv set_fragmentDefinitions)
    then show ?thesis by (simp add: resolveFragment_filter)
  qed
  have only_last: "\<exists>before after. defs = before @ FragmentDefinition found # after
           \<and> fragmentName found = fragName
           \<and> (\<forall>g. FragmentDefinition g \<in> set after \<longrightarrow> fragmentName g \<noteq> fragName)"
    if res: "resolveFragment defs fragName = Some found"
  proof -
    let ?P = "\<lambda>d. \<exists>g. d = FragmentDefinition g \<and> fragmentName g = fragName"
    have "\<exists>d \<in> set defs. ?P d"
    proof (rule ccontr)
      assume "\<not> (\<exists>d \<in> set defs. ?P d)"
      then have "\<forall>g. FragmentDefinition g \<in> set defs \<longrightarrow> fragmentName g \<noteq> fragName"
        by blast
      from none [OF this] res show False by simp
    qed
    from split_list_last_prop [where P = ?P, OF this] obtain before d after where
      split: "defs = before @ d # after" and d: "?P d" and
      rest: "\<forall>z \<in> set after. \<not> ?P z"
      by blast
    from d obtain g where g: "d = FragmentDefinition g" "fragmentName g = fragName"
      by blast
    from rest g have
      later: "\<forall>k. FragmentDefinition k \<in> set after \<longrightarrow> fragmentName k \<noteq> fragmentName g"
      by blast
    from last_wins [OF later, of before] split g res have "found = g" by simp
    with split g later show ?thesis by blast
  qed
  from last_wins none only_last show ?thesis by blast
qed

theorem resolveFragment_last_definition_witness:
  "duplicateFragmentsQuery =
     [FragmentDefinition firstDuplicate,
      OperationDefinition [Field ''node'' (Some [FragmentSpread ''Dup''])]]
     @ FragmentDefinition secondDuplicate # [FragmentDefinition userFragment]
   \<and> fragmentName firstDuplicate = fragmentName secondDuplicate
   \<and> firstDuplicate \<noteq> secondDuplicate
   \<and> resolveFragment duplicateFragmentsQuery ''Dup'' = Some secondDuplicate
   \<and> resolveFragment duplicateFragmentsQuery ''Dup'' \<noteq> Some firstDuplicate"
proof -
  have h1: "duplicateFragmentsQuery =
     [FragmentDefinition firstDuplicate,
      OperationDefinition [Field ''node'' (Some [FragmentSpread ''Dup''])]]
     @ FragmentDefinition secondDuplicate # [FragmentDefinition userFragment]"
    by (simp add: duplicateFragmentsQuery_def)
  have h2: "\<forall>g. FragmentDefinition g \<in> set [FragmentDefinition userFragment]
      \<longrightarrow> fragmentName g \<noteq> fragmentName secondDuplicate"
    by (simp add: userFragment_def secondDuplicate_def)
  have n: "fragmentName secondDuplicate = ''Dup''"
    by (simp add: secondDuplicate_def)
  have d: "firstDuplicate \<noteq> secondDuplicate"
    by (simp add: firstDuplicate_def secondDuplicate_def)
  have s: "fragmentName firstDuplicate = fragmentName secondDuplicate"
    by (simp add: firstDuplicate_def secondDuplicate_def)
  have "resolveFragment duplicateFragmentsQuery (fragmentName secondDuplicate)
      = Some secondDuplicate"
    using h1 h2
      resolveFragment_last_definition
        [of duplicateFragmentsQuery
            "[FragmentDefinition firstDuplicate,
              OperationDefinition [Field ''node'' (Some [FragmentSpread ''Dup''])]]"
            secondDuplicate "[FragmentDefinition userFragment]"]
    by blast
  with n have r: "resolveFragment duplicateFragmentsQuery ''Dup'' = Some secondDuplicate"
    by simp
  with h1 d s show ?thesis by simp
qed

end
